theory Spec2Isabelle
  imports Complex_Main "HOL-Library.Sublist"
begin

section \<open>Python values\<close>

text \<open>
  The processor of \<^verbatim>\<open>src/data_processor.py\<close> works on decoded JSON: the values
  typed \<^verbatim>\<open>Any\<close> in the source are \<^verbatim>\<open>None\<close>, booleans, integers, floats, strings,
  lists and dictionaries with string keys. Floats are kept abstract (the type variable
  \<open>'f\<close>): the processor never computes with them, and the three builtins that touch
  them (\<^verbatim>\<open>float(s)\<close>, \<^verbatim>\<open>format(x)\<close>, \<^verbatim>\<open>bool(x)\<close>) are parameters of the functions
  that call them.

  A dictionary is an association list in insertion order, as a Python \<^verbatim>\<open>dict\<close>
  iterates; a list that represents a dictionary has pairwise different keys. Strings are
  ASCII text.
\<close>

datatype 'f pyval =
    VNone
  | VBool bool
  | VInt int
  | VFloat 'f
  | VStr string
  | VList "'f pyval list"
  | VDict "(string \<times> 'f pyval) list"

type_synonym 'f pydict = "(string \<times> 'f pyval) list"

datatype py_error = AttributeError | TypeError | ValueError

fun is_list :: "'f pyval \<Rightarrow> bool" where
  "is_list (VList xs) = True"
| "is_list v = False"

fun is_dict :: "'f pyval \<Rightarrow> bool" where
  "is_dict (VDict d) = True"
| "is_dict v = False"

fun list_of_val :: "'f pyval \<Rightarrow> 'f pyval list" where
  "list_of_val (VList xs) = xs"
| "list_of_val v = []"

fun dict_of_val :: "'f pyval \<Rightarrow> 'f pydict" where
  "dict_of_val (VDict d) = d"
| "dict_of_val v = []"

text \<open>\<^verbatim>\<open>d[k] = v\<close>: an existing key keeps its position and takes the new value, a new
  key goes to the end.\<close>

fun dict_set :: "(string \<times> 'v) list \<Rightarrow> string \<Rightarrow> 'v \<Rightarrow> (string \<times> 'v) list" where
  "dict_set [] k v = [(k, v)]"
| "dict_set ((k', v') # d) k v =
     (if k' = k then (k', v) # d else (k', v') # dict_set d k v)"

text \<open>\<^verbatim>\<open>d.get(k, default)\<close>.\<close>

definition dict_get :: "(string \<times> 'v) list \<Rightarrow> string \<Rightarrow> 'v \<Rightarrow> 'v" where
  "dict_get d k dflt = (case map_of d k of None \<Rightarrow> dflt | Some v \<Rightarrow> v)"

text \<open>The dictionary display \<^verbatim>\<open>{k1: v1, k2: v2, ...}\<close>, built pair by pair.\<close>

definition dict_of_pairs :: "(string \<times> 'v) list \<Rightarrow> (string \<times> 'v) list" where
  "dict_of_pairs ps = foldl (\<lambda>d (k, v). dict_set d k v) [] ps"

text \<open>\<^verbatim>\<open>x in types\<close> for an optional list of strings: \<^verbatim>\<open>types is None or x in types\<close>.
  A value that is not a string equals no string.\<close>

definition passes :: "string list option \<Rightarrow> 'f pyval \<Rightarrow> bool" where
  "passes types x =
     (case types of
        None \<Rightarrow> True
      | Some ts \<Rightarrow> (case x of VStr s \<Rightarrow> s \<in> set ts | _ \<Rightarrow> False))"

text \<open>The replacement field of an f-string: a string is inserted as it is, any other
  value through the builtin \<^verbatim>\<open>format\<close>, the parameter \<open>fmt\<close>.\<close>

definition py_format :: "('f pyval \<Rightarrow> string) \<Rightarrow> 'f pyval \<Rightarrow> string" where
  "py_format fmt x = (case x of VStr s \<Rightarrow> s | _ \<Rightarrow> fmt x)"

section \<open>flatten_insights\<close>

text \<open>The loop over a list-shaped collection (lines 63-69, 73-79, 85-91, 104-110,
  120-123): \<^verbatim>\<open>.get\<close> exists on dictionaries only, so any other entry raises
  \<^verbatim>\<open>AttributeError\<close>. The video loop has no filter test, which is the filter
  \<open>None\<close>.\<close>

fun flatten_entries ::
  "('f pyval \<Rightarrow> string) \<Rightarrow> string \<Rightarrow> string list option \<Rightarrow> 'f pydict \<Rightarrow> 'f pyval list
     \<Rightarrow> py_error + 'f pydict" where
  "flatten_entries fmt pfx types flat [] = Inr flat"
| "flatten_entries fmt pfx types flat (action # rest) =
     (case action of
        VDict a \<Rightarrow>
          (let action_type = dict_get a ''action_type'' (VStr ''unknown'');
               action_val = dict_get a ''value'' (VInt 0)
           in flatten_entries fmt pfx types
                (if passes types action_type
                 then dict_set flat (pfx @ py_format fmt action_type) action_val
                 else flat)
                rest)
      | _ \<Rightarrow> Inl AttributeError)"

text \<open>The loop over a mapping-shaped \<^verbatim>\<open>conversions\<close> or \<^verbatim>\<open>conversion_values\<close>
  (lines 95-98, 113-116).\<close>

fun flatten_pairs ::
  "string \<Rightarrow> string list option \<Rightarrow> 'f pydict \<Rightarrow> 'f pydict \<Rightarrow> 'f pydict" where
  "flatten_pairs pfx types flat [] = flat"
| "flatten_pairs pfx types flat ((conv_type, conv_val) # rest) =
     flatten_pairs pfx types
       (if passes types (VStr conv_type :: 'f pyval) then dict_set flat (pfx @ conv_type) conv_val
        else flat)
       rest"

text \<open>The loop over a nested dictionary (lines 127-128).\<close>

fun flatten_nested :: "string \<Rightarrow> 'f pydict \<Rightarrow> 'f pydict \<Rightarrow> 'f pydict" where
  "flatten_nested key flat [] = flat"
| "flatten_nested key flat ((sub_key, sub_value) # rest) =
     flatten_nested key (dict_set flat (key @ ''_'' @ sub_key) sub_value) rest"

text \<open>The body of the loop over the fields (lines 61-134).\<close>

definition flatten_field ::
  "('f pyval \<Rightarrow> string) \<Rightarrow> string list option \<Rightarrow> string list option \<Rightarrow> string list option
     \<Rightarrow> 'f pydict \<Rightarrow> string \<Rightarrow> 'f pyval \<Rightarrow> py_error + 'f pydict" where
  "flatten_field fmt action_types action_value_types conversion_types flat key val =
     (if key = ''actions'' \<and> is_list val then
        flatten_entries fmt ''action_'' action_types flat (list_of_val val)
      else if key = ''action_values'' \<and> is_list val then
        flatten_entries fmt ''action_value_'' action_value_types flat (list_of_val val)
      else if key = ''conversions'' \<and> (is_list val \<or> is_dict val) then
        (if is_list val then
           flatten_entries fmt ''conversion_'' conversion_types flat (list_of_val val)
         else Inr (flatten_pairs ''conversion_'' conversion_types flat (dict_of_val val)))
      else if key = ''conversion_values'' \<and> (is_list val \<or> is_dict val) then
        (if is_list val then
           flatten_entries fmt ''conversion_value_'' conversion_types flat (list_of_val val)
         else Inr (flatten_pairs ''conversion_value_'' conversion_types flat (dict_of_val val)))
      else if key = ''video_thruplay_watched_actions'' \<and> is_list val then
        flatten_entries fmt ''video_thruplay_watched_actions_'' None flat (list_of_val val)
      else if is_dict val then
        Inr (flatten_nested key flat (dict_of_val val))
      else if key = ''date_stop'' then Inr flat
      else Inr (dict_set flat key val))"

fun flatten_loop ::
  "('f pyval \<Rightarrow> string) \<Rightarrow> string list option \<Rightarrow> string list option \<Rightarrow> string list option
     \<Rightarrow> 'f pydict \<Rightarrow> 'f pydict \<Rightarrow> py_error + 'f pydict" where
  "flatten_loop fmt ats avts cts flat [] = Inr flat"
| "flatten_loop fmt ats avts cts flat ((key, val) # rest) =
     (case flatten_field fmt ats avts cts flat key val of
        Inl e \<Rightarrow> Inl e
      | Inr flat' \<Rightarrow> flatten_loop fmt ats avts cts flat' rest)"

text \<open>\<^verbatim>\<open>item.items()\<close> raises \<^verbatim>\<open>AttributeError\<close> when \<open>item\<close> is no dictionary.\<close>

definition flatten_insights ::
  "('f pyval \<Rightarrow> string) \<Rightarrow> 'f pyval \<Rightarrow> string list option \<Rightarrow> string list option
     \<Rightarrow> string list option \<Rightarrow> py_error + 'f pydict" where
  "flatten_insights fmt item action_types action_value_types conversion_types =
     (case item of
        VDict d \<Rightarrow> flatten_loop fmt action_types action_value_types conversion_types [] d
      | _ \<Rightarrow> Inl AttributeError)"

section \<open>process_insights\<close>

text \<open>\<^verbatim>\<open>bool(x)\<close>, with the test of a float against zero as the parameter \<open>fnz\<close>.\<close>

fun truthy :: "('f \<Rightarrow> bool) \<Rightarrow> 'f pyval \<Rightarrow> bool" where
  "truthy fnz VNone = False"
| "truthy fnz (VBool b) = b"
| "truthy fnz (VInt n) = (n \<noteq> 0)"
| "truthy fnz (VFloat x) = fnz x"
| "truthy fnz (VStr s) = (s \<noteq> [])"
| "truthy fnz (VList xs) = (xs \<noteq> [])"
| "truthy fnz (VDict d) = (d \<noteq> [])"

text \<open>What \<^verbatim>\<open>for item in data\<close> iterates over: the elements of a list, the characters
  of a string, the keys of a dictionary; any other value raises \<^verbatim>\<open>TypeError\<close>.\<close>

fun iterate :: "'f pyval \<Rightarrow> py_error + 'f pyval list" where
  "iterate (VList xs) = Inr xs"
| "iterate (VStr s) = Inr (map (\<lambda>c. VStr [c]) s)"
| "iterate (VDict d) = Inr (map (\<lambda>(k, v). VStr k) d)"
| "iterate v = Inl TypeError"

fun process_loop ::
  "('f pyval \<Rightarrow> string) \<Rightarrow> string list option \<Rightarrow> string list option \<Rightarrow> string list option
     \<Rightarrow> 'f pydict list \<Rightarrow> 'f pyval list \<Rightarrow> py_error + 'f pydict list" where
  "process_loop fmt ats avts cts flat_data [] = Inr flat_data"
| "process_loop fmt ats avts cts flat_data (item # rest) =
     (case flatten_insights fmt item ats avts cts of
        Inl e \<Rightarrow> Inl e
      | Inr flat_item \<Rightarrow> process_loop fmt ats avts cts (flat_data @ [flat_item]) rest)"

definition process_insights ::
  "('f pyval \<Rightarrow> string) \<Rightarrow> ('f \<Rightarrow> bool) \<Rightarrow> 'f pyval \<Rightarrow> string list option
     \<Rightarrow> string list option \<Rightarrow> string list option \<Rightarrow> py_error + 'f pydict list" where
  "process_insights fmt fnz response action_types action_value_types conversion_types =
     (case response of
        VDict r \<Rightarrow>
          (let data = dict_get r ''data'' (VList [])
           in if \<not> truthy fnz data then Inr []
              else (case iterate data of
                      Inl e \<Rightarrow> Inl e
                    | Inr items \<Rightarrow>
                        process_loop fmt action_types action_value_types conversion_types
                          [] items))
      | _ \<Rightarrow> Inl AttributeError)"

section \<open>convert_numeric_fields\<close>

definition numeric_patterns :: "string list" where
  "numeric_patterns =
     [''spend'', ''impressions'', ''clicks'', ''reach'', ''frequency'',
      ''ctr'', ''cpc'', ''cpm'', ''conversions'', ''cost'', ''action_'',
      ''value'', ''video'', ''budget'']"

text \<open>\<^verbatim>\<open>str.lower\<close> on ASCII text.\<close>

definition lower_char :: "char \<Rightarrow> char" where
  "lower_char c =
     (case map_of (zip ''ABCDEFGHIJKLMNOPQRSTUVWXYZ'' ''abcdefghijklmnopqrstuvwxyz'') c of
        None \<Rightarrow> c
      | Some l \<Rightarrow> l)"

definition lower :: "string \<Rightarrow> string" where
  "lower s = map lower_char s"

text \<open>\<^verbatim>\<open>pattern in s\<close> for strings.\<close>

fun is_substring :: "string \<Rightarrow> string \<Rightarrow> bool" where
  "is_substring p [] = (p = [])"
| "is_substring p (c # cs) = (prefix p (c # cs) \<or> is_substring p cs)"

definition matches_numeric :: "string \<Rightarrow> bool" where
  "matches_numeric key = list_ex (\<lambda>pattern. is_substring pattern (lower key)) numeric_patterns"

text \<open>\<^verbatim>\<open>float(value)\<close> on a string: the parameter \<open>parse\<close> gives the float, or
  \<open>None\<close> where Python raises \<^verbatim>\<open>ValueError\<close>.\<close>

definition py_float :: "(string \<Rightarrow> 'f option) \<Rightarrow> string \<Rightarrow> py_error + 'f pyval" where
  "py_float parse s = (case parse s of None \<Rightarrow> Inl ValueError | Some x \<Rightarrow> Inr (VFloat x))"

text \<open>The \<^verbatim>\<open>try\<close> block of lines 217-224 with its handler for \<^verbatim>\<open>ValueError\<close> and
  \<^verbatim>\<open>TypeError\<close>; any other exception would leave the function.\<close>

definition convert_value :: "(string \<Rightarrow> 'f option) \<Rightarrow> 'f pyval \<Rightarrow> py_error + 'f pyval" where
  "convert_value parse val =
     (case (case val of VStr s \<Rightarrow> py_float parse s | _ \<Rightarrow> Inr val) of
        Inr v \<Rightarrow> Inr v
      | Inl e \<Rightarrow> (if e = ValueError \<or> e = TypeError then Inr val else Inl e))"

fun convert_item ::
  "(string \<Rightarrow> 'f option) \<Rightarrow> 'f pydict \<Rightarrow> 'f pydict \<Rightarrow> py_error + 'f pydict" where
  "convert_item parse converted [] = Inr converted"
| "convert_item parse converted ((key, val) # rest) =
     (if matches_numeric key then
        (case convert_value parse val of
           Inl e \<Rightarrow> Inl e
         | Inr v \<Rightarrow> convert_item parse (dict_set converted key v) rest)
      else convert_item parse (dict_set converted key val) rest)"

fun convert_loop ::
  "(string \<Rightarrow> 'f option) \<Rightarrow> 'f pydict list \<Rightarrow> 'f pydict list \<Rightarrow> py_error + 'f pydict list" where
  "convert_loop parse result [] = Inr result"
| "convert_loop parse result (item # rest) =
     (case convert_item parse [] item of
        Inl e \<Rightarrow> Inl e
      | Inr converted \<Rightarrow> convert_loop parse (result @ [converted]) rest)"

definition convert_numeric_fields ::
  "(string \<Rightarrow> 'f option) \<Rightarrow> 'f pydict list \<Rightarrow> py_error + 'f pydict list" where
  "convert_numeric_fields parse data = convert_loop parse [] data"

section \<open>Notions used in the statements\<close>

text \<open>The entry \<^verbatim>\<open>{'action_type': t, 'value': v}\<close> of a list-shaped collection.\<close>

definition entry_of :: "string \<times> 'f pyval \<Rightarrow> 'f pyval" where
  "entry_of p = VDict [(''action_type'', VStr (fst p)), (''value'', snd p)]"

text \<open>A stand-in for the builtin \<^verbatim>\<open>format\<close> in the examples; it is never reached
  there, since every type of the examples is a string.\<close>

definition no_format :: "'f pyval \<Rightarrow> string" where
  "no_format x = []"

text \<open>The five keys whose list values are collections of entries, and the prefix each
  one gives to its output keys.\<close>

definition collection_keys :: "string list" where
  "collection_keys =
     [''actions'', ''action_values'', ''conversions'', ''conversion_values'',
      ''video_thruplay_watched_actions'']"

definition collection_prefix :: "string \<Rightarrow> string" where
  "collection_prefix key =
     (if key = ''actions'' then ''action_''
      else if key = ''action_values'' then ''action_value_''
      else if key = ''conversions'' then ''conversion_''
      else if key = ''conversion_values'' then ''conversion_value_''
      else ''video_thruplay_watched_actions_'')"

text \<open>The type and the value that the loops read from an entry.\<close>

definition entry_pair :: "'f pyval \<Rightarrow> 'f pyval \<times> 'f pyval" where
  "entry_pair action =
     (dict_get (dict_of_val action) ''action_type'' (VStr ''unknown''),
      dict_get (dict_of_val action) ''value'' (VInt 0))"

text \<open>An entry with the defaults of \<^verbatim>\<open>.get\<close> written into it.\<close>

definition with_defaults :: "'f pydict \<Rightarrow> 'f pydict" where
  "with_defaults a =
     (let a' = (if map_of a ''action_type'' = None
                then a @ [(''action_type'', VStr ''unknown'')] else a)
      in if map_of a' ''value'' = None then a' @ [(''value'', VInt 0)] else a')"

text \<open>A field whose list-shaped collection holds dictionaries only; a record all of
  whose fields are so; a response whose \<^verbatim>\<open>data\<close> is absent, falsy or a list of such
  records.\<close>

definition field_ok :: "string \<times> 'f pyval \<Rightarrow> bool" where
  "field_ok kv =
     (if fst kv \<in> set collection_keys \<and> is_list (snd kv)
      then list_all is_dict (list_of_val (snd kv)) else True)"

definition record_ok :: "'f pyval \<Rightarrow> bool" where
  "record_ok item = (is_dict item \<and> list_all field_ok (dict_of_val item))"

definition response_ok :: "('f \<Rightarrow> bool) \<Rightarrow> 'f pyval \<Rightarrow> bool" where
  "response_ok fnz response =
     (is_dict response \<and>
      (let data = dict_get (dict_of_val response) ''data'' (VList [])
       in \<not> truthy fnz data \<or> (is_list data \<and> list_all record_ok (list_of_val data))))"

text \<open>A value that is neither a list nor a dictionary.\<close>

definition is_scalar :: "'f pyval \<Rightarrow> bool" where
  "is_scalar v = (\<not> is_list v \<and> \<not> is_dict v)"

text \<open>The coercion of one field as the specification words it: a field whose key
  matches the vocabulary and whose value is a string that parses takes the parsed number;
  every other field stays as it is.\<close>

definition coerce_field :: "(string \<Rightarrow> 'f option) \<Rightarrow> string \<times> 'f pyval \<Rightarrow> string \<times> 'f pyval" where
  "coerce_field parse kv =
     (fst kv,
      if matches_numeric (fst kv)
      then (case snd kv of
              VStr s \<Rightarrow> (case parse s of None \<Rightarrow> VStr s | Some x \<Rightarrow> VFloat x)
            | v \<Rightarrow> v)
      else snd kv)"

text \<open>A stand-in for the builtin \<^verbatim>\<open>float\<close> in the examples: it reads the one
  numeral \<^verbatim>\<open>'100.50'\<close> and rejects every other string.\<close>

definition parse_example :: "string \<Rightarrow> real option" where
  "parse_example s = (if s = ''100.50'' then Some (201 / 2) else None)"

section \<open>Dictionaries\<close>

lemma dict_set_keys:
  "map fst (dict_set d k v) = (if k \<in> set (map fst d) then map fst d else map fst d @ [k])"
  by (induction d) force+

lemma dict_set_distinct: "distinct (map fst d) \<Longrightarrow> distinct (map fst (dict_set d k v))"
  by (simp add: dict_set_keys)

lemma dict_set_fresh: "k \<notin> set (map fst d) \<Longrightarrow> dict_set d k v = d @ [(k, v)]"
  by (induction d) auto

lemma dict_set_twice: "dict_set (dict_set d k v) k v' = dict_set d k v'"
  by (induction d) auto

text \<open>Writing a key that is already there keeps the order, so it commutes with any
  other write.\<close>

lemma dict_set_commute:
  "k \<in> set (map fst d) \<Longrightarrow> k \<noteq> k' \<Longrightarrow>
   dict_set (dict_set d k' v') k v = dict_set (dict_set d k v) k' v'"
  by (induction d) (fastforce simp: image_iff)+

lemma dict_of_pairs_snoc:
  "dict_of_pairs (ps @ [(t, v)]) = dict_set (dict_of_pairs ps) t v"
  by (simp add: dict_of_pairs_def)

lemma dict_of_pairs_distinct: "distinct (map fst (dict_of_pairs ps))"
proof (induction ps rule: rev_induct)
  case Nil
  then show ?case by (simp add: dict_of_pairs_def)
next
  case (snoc x xs)
  then show ?case by (cases x) (simp add: dict_of_pairs_snoc dict_set_distinct)
qed

section \<open>The loops of flatten_insights\<close>

lemma flatten_pairs_append:
  "flatten_pairs pfx types flat (d1 @ d2) =
   flatten_pairs pfx types (flatten_pairs pfx types flat d1) d2"
  by (induction d1 arbitrary: flat) auto

lemma flatten_pairs_dict_set_out:
  "k \<in> set (map fst g) \<Longrightarrow> k \<notin> (\<lambda>t. pfx @ t) ` set (map fst d) \<Longrightarrow>
   flatten_pairs pfx types (dict_set g k v) d = dict_set (flatten_pairs pfx types g d) k v"
proof (induction d arbitrary: g)
  case Nil
  then show ?case by simp
next
  case (Cons a d)
  obtain t w where a: "a = (t, w)" by (cases a)
  from Cons.prems have ne: "k \<noteq> pfx @ t" and rest: "k \<notin> (\<lambda>t. pfx @ t) ` set (map fst d)"
    by (auto simp: a)
  show ?case
  proof (cases "passes types (VStr t :: 'a pyval)")
    case True
    have "k \<in> set (map fst (dict_set g (pfx @ t) w))"
      using Cons.prems(1) by (simp add: dict_set_keys)
    from Cons.IH[OF this rest] show ?thesis
      using True ne Cons.prems(1) by (simp add: a dict_set_commute)
  next
    case False
    with Cons.IH[OF Cons.prems(1) rest] show ?thesis by (simp add: a)
  qed
qed

text \<open>Storing a pair in a mapping before the loop amounts to one more step of the
  loop after it.\<close>

lemma flatten_pairs_dict_set:
  "distinct (map fst d) \<Longrightarrow>
   flatten_pairs pfx types flat (dict_set d t v) =
     (if passes types (VStr t :: 'f pyval)
      then dict_set (flatten_pairs pfx types flat d) (pfx @ t) v
      else flatten_pairs pfx types flat (d :: 'f pydict))"
proof (induction d arbitrary: flat)
  case Nil
  then show ?case by simp
next
  case (Cons a d)
  obtain t0 v0 where a: "a = (t0, v0)" by (cases a)
  show ?case
  proof (cases "t0 = t")
    case True
    have "t \<notin> set (map fst d)"
      using Cons.prems True by (simp add: a)
    then have fresh: "pfx @ t \<notin> (\<lambda>t. pfx @ t) ` set (map fst d)"
      by (simp add: image_iff)
    have "flatten_pairs pfx types (dict_set (dict_set flat (pfx @ t) v0) (pfx @ t) v) d =
          dict_set (flatten_pairs pfx types (dict_set flat (pfx @ t) v0) d) (pfx @ t) v"
      by (rule flatten_pairs_dict_set_out) (use fresh in \<open>simp_all add: dict_set_keys\<close>)
    then show ?thesis using True by (simp add: a dict_set_twice)
  next
    case False
    with Cons show ?thesis by (simp add: a)
  qed
qed

lemma flatten_pairs_dict_of_pairs:
  "flatten_pairs pfx types flat (dict_of_pairs ps) = flatten_pairs pfx types flat ps"
proof (induction ps rule: rev_induct)
  case Nil
  then show ?case by (simp add: dict_of_pairs_def)
next
  case (snoc x xs)
  obtain t v where x: "x = (t, v)" by (cases x)
  show ?case
    using snoc
    by (simp add: x dict_of_pairs_snoc flatten_pairs_dict_set dict_of_pairs_distinct
        flatten_pairs_append)
qed

lemma flatten_entries_pairs:
  "flatten_entries fmt pfx types flat (map entry_of ps) = Inr (flatten_pairs pfx types flat ps)"
  by (induction ps arbitrary: flat)
     (auto simp: entry_of_def dict_get_def py_format_def passes_def split: option.splits)

lemma flatten_loop_append:
  "flatten_loop fmt ats avts cts flat (d1 @ d2) =
     (case flatten_loop fmt ats avts cts flat d1 of
        Inl e \<Rightarrow> Inl e
      | Inr flat' \<Rightarrow> flatten_loop fmt ats avts cts flat' d2)"
  by (induction d1 arbitrary: flat) (auto split: sum.splits)

text \<open>Two fields that the loop body treats alike can replace each other anywhere in a
  record.\<close>

lemma flatten_loop_field_cong:
  assumes "\<And>flat. flatten_field fmt ats avts cts flat k v = flatten_field fmt ats avts cts flat k' v'"
  shows "flatten_loop fmt ats avts cts flat (d1 @ (k, v) # d2) =
         flatten_loop fmt ats avts cts flat (d1 @ (k', v') # d2)"
  by (simp add: flatten_loop_append assms split: sum.splits)

lemma flatten_loop_field_skip:
  assumes "\<And>flat. flatten_field fmt ats avts cts flat k v = Inr flat"
  shows "flatten_loop fmt ats avts cts flat (d1 @ (k, v) # d2) =
         flatten_loop fmt ats avts cts flat (d1 @ d2)"
  by (simp add: flatten_loop_append assms split: sum.splits)

text \<open>The loops return exactly when every entry they meet is a dictionary.\<close>

lemma flatten_entries_returns:
  "(\<exists>flat'. flatten_entries fmt pfx types flat es = Inr flat') \<longleftrightarrow> list_all is_dict es"
proof (induction es arbitrary: flat)
  case Nil
  then show ?case by simp
next
  case (Cons e es)
  then show ?case by (cases e) (simp_all add: Let_def)
qed

lemma flatten_field_returns:
  "(\<exists>flat'. flatten_field fmt ats avts cts flat k v = Inr flat') \<longleftrightarrow> field_ok (k, v)"
  by (simp add: flatten_field_def field_ok_def collection_keys_def flatten_entries_returns)

lemma flatten_loop_returns:
  "(\<exists>flat'. flatten_loop fmt ats avts cts flat d = Inr flat') \<longleftrightarrow> list_all field_ok d"
proof (induction d arbitrary: flat)
  case Nil
  then show ?case by simp
next
  case (Cons kv d)
  obtain k v where kv: "kv = (k, v)" by (cases kv)
  show ?case
  proof (cases "flatten_field fmt ats avts cts flat k v")
    case (Inl e)
    then have "\<not> field_ok (k, v)"
      using flatten_field_returns [of fmt ats avts cts flat k v] by simp
    with Inl show ?thesis by (simp add: kv)
  next
    case (Inr flat')
    then have "field_ok (k, v)"
      using flatten_field_returns [of fmt ats avts cts flat k v] by simp
    with Inr Cons.IH [of flat'] show ?thesis by (simp add: kv)
  qed
qed

lemma flatten_insights_returns:
  "(\<exists>flat. flatten_insights fmt item ats avts cts = Inr flat) \<longleftrightarrow> record_ok item"
  by (cases item) (simp_all add: flatten_insights_def record_ok_def flatten_loop_returns)

section \<open>process_insights and convert_numeric_fields return\<close>

lemma process_loop_returns:
  "(\<exists>rs. process_loop fmt ats avts cts acc items = Inr rs) \<longleftrightarrow> list_all record_ok items"
proof (induction items arbitrary: acc)
  case Nil
  then show ?case by simp
next
  case (Cons item items)
  show ?case
  proof (cases "flatten_insights fmt item ats avts cts")
    case (Inl e)
    then have "\<not> record_ok item"
      using flatten_insights_returns [of fmt item ats avts cts] by simp
    with Inl show ?thesis by simp
  next
    case (Inr flat)
    then have "record_ok item"
      using flatten_insights_returns [of fmt item ats avts cts] by simp
    with Inr Cons.IH [of "acc @ [flat]"] show ?thesis by simp
  qed
qed

lemma process_insights_returns:
  "(\<exists>rs. process_insights fmt fnz response ats avts cts = Inr rs) \<longleftrightarrow> response_ok fnz response"
proof (cases response)
  case (VDict r)
  define data where "data = dict_get r ''data'' (VList [])"
  show ?thesis
  proof (cases "truthy fnz data")
    case False
    then show ?thesis
      by (simp add: VDict process_insights_def response_ok_def data_def)
  next
    case True
    have "(\<exists>rs. (case iterate data of Inl e \<Rightarrow> Inl e
                 | Inr items \<Rightarrow> process_loop fmt ats avts cts [] items) = Inr rs) \<longleftrightarrow>
          (is_list data \<and> list_all record_ok (list_of_val data))"
      using True
      by (cases data)
         (auto simp: process_loop_returns list_all_iff record_ok_def neq_Nil_conv)
    then show ?thesis
      using True by (simp add: VDict process_insights_def response_ok_def data_def [symmetric])
  qed
qed (simp_all add: process_insights_def response_ok_def)

lemma convert_value_returns: "\<exists>v. convert_value parse val = Inr v"
  by (cases val) (auto simp: convert_value_def py_float_def split: option.splits)

lemma convert_item_returns: "\<exists>c. convert_item parse converted item = Inr c"
proof (induction item arbitrary: converted)
  case Nil
  then show ?case by simp
next
  case (Cons kv item)
  obtain k v where kv: "kv = (k, v)" by (cases kv)
  obtain v' where "convert_value parse v = Inr v'"
    using convert_value_returns by blast
  with Cons show ?case by (simp add: kv)
qed

lemma convert_loop_returns: "\<exists>rs. convert_loop parse result data = Inr rs"
proof (induction data arbitrary: result)
  case Nil
  then show ?case by simp
next
  case (Cons item data)
  obtain c where "convert_item parse [] item = Inr c"
    using convert_item_returns by blast
  with Cons show ?case by simp
qed

lemma process_loop_all2:
  "list_all2 (\<lambda>item flat. flatten_insights fmt item ats avts cts = Inr flat) items flats \<Longrightarrow>
   process_loop fmt ats avts cts acc items = Inr (acc @ flats)"
proof (induction items flats arbitrary: acc rule: list_all2_induct)
  case Nil
  then show ?case by simp
next
  case (Cons item items flat flats)
  then show ?case by simp
qed

section \<open>Fields of a flat record\<close>

lemma flatten_insights_field:
  "flatten_insights fmt (VDict (d1 @ (k, v) # d2)) ats avts cts =
     (case flatten_insights fmt (VDict d1) ats avts cts of
        Inl e \<Rightarrow> Inl e
      | Inr flat \<Rightarrow>
          (case flatten_field fmt ats avts cts flat k v of
             Inl e \<Rightarrow> Inl e
           | Inr flat' \<Rightarrow> flatten_loop fmt ats avts cts flat' d2))"
  by (simp add: flatten_insights_def flatten_loop_append split: sum.splits)

lemma flatten_field_scalar:
  "is_scalar v \<Longrightarrow>
   flatten_field fmt ats avts cts flat k v =
     Inr (if k = ''date_stop'' then flat else dict_set flat k v)"
  by (simp add: flatten_field_def is_scalar_def)

lemma flatten_loop_scalars:
  "list_all (\<lambda>kv. is_scalar (snd kv)) d \<Longrightarrow> distinct (map fst d) \<Longrightarrow>
   set (map fst flat) \<inter> set (map fst d) = {} \<Longrightarrow>
   flatten_loop fmt ats avts cts flat d = Inr (flat @ filter (\<lambda>kv. fst kv \<noteq> ''date_stop'') d)"
proof (induction d arbitrary: flat)
  case Nil
  then show ?case by simp
next
  case (Cons kv d)
  obtain k v where kv: "kv = (k, v)" by (cases kv)
  from Cons.prems have sc: "is_scalar v" and rest: "list_all (\<lambda>kv. is_scalar (snd kv)) d"
    and dist: "distinct (map fst d)" and knd: "k \<notin> set (map fst d)"
    and kflat: "k \<notin> set (map fst flat)" and disj: "set (map fst flat) \<inter> set (map fst d) = {}"
    by (auto simp: kv)
  show ?case
  proof (cases "k = ''date_stop''")
    case True
    with Cons.IH [OF rest dist disj] sc show ?thesis
      by (simp add: kv flatten_field_scalar)
  next
    case False
    have "set (map fst (flat @ [(k, v)])) \<inter> set (map fst d) = {}"
      using disj knd by auto
    from Cons.IH [OF rest dist this] sc kflat False show ?thesis
      by (simp add: kv flatten_field_scalar dict_set_fresh)
  qed
qed

lemma flatten_nested_foldl:
  "flatten_nested key flat m = foldl (\<lambda>f (sk, sv). dict_set f (key @ ''_'' @ sk) sv) flat m"
  by (induction m arbitrary: flat) auto

lemma flatten_nested_fresh:
  "distinct (map fst m) \<Longrightarrow> set (map fst flat) \<inter> (\<lambda>sk. key @ ''_'' @ sk) ` set (map fst m) = {} \<Longrightarrow>
   flatten_nested key flat m = flat @ map (\<lambda>(sk, sv). (key @ ''_'' @ sk, sv)) m"
proof (induction m arbitrary: flat)
  case Nil
  then show ?case by simp
next
  case (Cons a m)
  obtain sk sv where a: "a = (sk, sv)" by (cases a)
  from Cons.prems have fresh: "key @ ''_'' @ sk \<notin> set (map fst flat)"
    and dist: "distinct (map fst m)" and sk: "sk \<notin> set (map fst m)"
    and disj: "set (map fst flat) \<inter> (\<lambda>sk. key @ ''_'' @ sk) ` set (map fst m) = {}"
    by (auto simp: a)
  have "set (map fst (flat @ [(key @ ''_'' @ sk, sv)])) \<inter> (\<lambda>sk. key @ ''_'' @ sk) ` set (map fst m) = {}"
    using disj sk by auto
  from Cons.IH [OF dist this] fresh show ?case
    by (simp add: a dict_set_fresh)
qed

lemma flatten_entries_append:
  "flatten_entries fmt pfx types flat (es1 @ es2) =
     (case flatten_entries fmt pfx types flat es1 of
        Inl e \<Rightarrow> Inl e
      | Inr flat' \<Rightarrow> flatten_entries fmt pfx types flat' es2)"
proof (induction es1 arbitrary: flat)
  case Nil
  then show ?case by simp
next
  case (Cons e es1)
  then show ?case by (cases e) (simp_all add: Let_def)
qed

lemma dict_get_with_defaults:
  "dict_get (with_defaults a) ''action_type'' (VStr ''unknown'') =
     dict_get a ''action_type'' (VStr ''unknown'')"
  "dict_get (with_defaults a) ''value'' (VInt 0) = dict_get a ''value'' (VInt 0)"
  by (auto simp: with_defaults_def dict_get_def Let_def map_add_def split: option.splits)

lemma flatten_entries_with_defaults:
  "flatten_entries fmt pfx types flat (es1 @ VDict a # es2) =
   flatten_entries fmt pfx types flat (es1 @ VDict (with_defaults a) # es2)"
  by (simp add: flatten_entries_append dict_get_with_defaults split: sum.splits)

lemma flatten_pairs_foldl_filter:
  "flatten_pairs pfx types flat (m :: 'f pydict) =
   foldl (\<lambda>f (t, v). dict_set f (pfx @ t) v) flat
     (filter (\<lambda>(t, v). passes types (VStr t :: 'f pyval)) m)"
  by (induction m arbitrary: flat) auto

lemma flatten_entries_foldl_filter:
  "list_all is_dict es \<Longrightarrow>
   flatten_entries fmt pfx types flat es =
   Inr (foldl (\<lambda>f (ty, v). dict_set f (pfx @ py_format fmt ty) v) flat
     (filter (\<lambda>(ty, v). passes types ty) (map entry_pair es)))"
proof (induction es arbitrary: flat)
  case Nil
  then show ?case by simp
next
  case (Cons e es)
  then show ?case by (cases e) (simp_all add: Let_def entry_pair_def)
qed

section \<open>The loops of convert_numeric_fields\<close>

lemma is_substring_sublist: "is_substring p s \<longleftrightarrow> sublist p s"
  by (induction s) (simp_all add: sublist_Cons_right)

lemma lower_contains:
  "sublist w (lower key) \<longleftrightarrow> (\<exists>pre mid post. key = pre @ mid @ post \<and> lower mid = w)"
proof
  assume "sublist w (lower key)"
  then obtain a b where "map lower_char key = a @ w @ b"
    by (auto simp: sublist_def lower_def)
  then obtain pre rest where k: "key = pre @ rest" and "map lower_char rest = w @ b"
    by (metis map_eq_append_conv)
  then obtain mid post where "rest = mid @ post" and "map lower_char mid = w"
    by (metis map_eq_append_conv)
  with k show "\<exists>pre mid post. key = pre @ mid @ post \<and> lower mid = w"
    by (auto simp: lower_def)
next
  assume "\<exists>pre mid post. key = pre @ mid @ post \<and> lower mid = w"
  then obtain pre mid post where "key = pre @ mid @ post" and "lower mid = w"
    by blast
  then have "lower key = lower pre @ w @ lower post"
    by (simp add: lower_def)
  then show "sublist w (lower key)"
    by (simp only: sublist_appendI)
qed

lemma matches_numeric_iff:
  "matches_numeric key \<longleftrightarrow>
     (\<exists>word \<in> set numeric_patterns. \<exists>pre mid post. key = pre @ mid @ post \<and> lower mid = word)"
  by (simp add: matches_numeric_def list_ex_iff is_substring_sublist lower_contains)

lemma convert_value_eq:
  "convert_value parse val =
     Inr (case val of
            VStr s \<Rightarrow> (case parse s of None \<Rightarrow> VStr s | Some x \<Rightarrow> VFloat x)
          | v \<Rightarrow> v)"
  by (cases val) (auto simp: convert_value_def py_float_def split: option.splits)

lemma convert_item_map:
  "distinct (map fst item) \<Longrightarrow> set (map fst converted) \<inter> set (map fst item) = {} \<Longrightarrow>
   convert_item parse converted item = Inr (converted @ map (coerce_field parse) item)"
proof (induction item arbitrary: converted)
  case Nil
  then show ?case by simp
next
  case (Cons kv item)
  obtain k v where kv: "kv = (k, v)" by (cases kv)
  from Cons.prems have dist: "distinct (map fst item)" and knd: "k \<notin> set (map fst item)"
    and fresh: "k \<notin> set (map fst converted)"
    and disj: "set (map fst converted) \<inter> set (map fst item) = {}"
    by (auto simp: kv)
  have "set (map fst (converted @ [(k, w)])) \<inter> set (map fst item) = {}" for w
    using disj knd by auto
  from Cons.IH [OF dist this] fresh show ?case
    by (simp add: kv convert_value_eq dict_set_fresh coerce_field_def)
qed

lemma convert_loop_map:
  "list_all (\<lambda>item. distinct (map fst item)) data \<Longrightarrow>
   convert_loop parse result data = Inr (result @ map (map (coerce_field parse)) data)"
proof (induction data arbitrary: result)
  case Nil
  then show ?case by simp
next
  case (Cons item data)
  then show ?case by (simp add: convert_item_map)
qed

section \<open>The claims\<close>

subsection \<open>C1\<close>

text \<open>
  C1 (as stated). For every value shape of the field \<^verbatim>\<open>date_stop\<close> (scalar, nested
  mapping or list) the output holds no key and no pair derived from that field. This
  fails for a mapping: the test for a dictionary comes before the test for the key, so
  the nested-object rule emits \<^verbatim>\<open>date_stop_a\<close>.
\<close>

theorem date_stop_mapping_counterexample:
  "flatten_insights no_format (VDict [(''date_stop'', VDict [(''a'', VStr ''1'')])])
       None None None
     = Inr [(''date_stop_a'', (VStr ''1'' :: real pyval))]
   \<and> flatten_insights no_format (VDict [(''date_stop'', VDict [(''a'', VStr ''1'')])])
       None None None
     \<noteq> flatten_insights no_format (VDict ([] :: real pydict)) None None None"
  by (simp add: flatten_insights_def flatten_field_def)

text \<open>
  C1 (amended). For every record, every choice of filters and every value of the field
  \<^verbatim>\<open>date_stop\<close> that is not a mapping (a scalar or a list), flattening drops the
  field: the result is that of the same record without the field.
\<close>

theorem date_stop_dropped:
  assumes "\<not> is_dict v"
  shows "flatten_insights fmt (VDict (d1 @ (''date_stop'', v) # d2)) ats avts cts =
         flatten_insights fmt (VDict (d1 @ d2)) ats avts cts"
proof -
  have "flatten_field fmt ats avts cts flat ''date_stop'' v = Inr flat" for flat
    using assms by (simp add: flatten_field_def)
  then show ?thesis
    unfolding flatten_insights_def pyval.case by (rule flatten_loop_field_skip)
qed

theorem date_stop_dropped_witness:
  "\<not> is_dict (VStr ''2025-01-01'' :: real pyval) \<and>
   flatten_insights no_format
     (VDict [(''campaign_name'', VStr ''A''), (''date_stop'', VStr ''2025-01-01''),
             (''spend'', VStr ''10'' :: real pyval)])
     None None None = Inr [(''campaign_name'', VStr ''A''), (''spend'', VStr ''10'')]"
proof -
  have h: "\<not> is_dict (VStr ''2025-01-01'' :: real pyval)" by simp
  have "flatten_insights no_format
          (VDict [(''campaign_name'', VStr ''A''), (''spend'', VStr ''10'' :: real pyval)])
          None None None = Inr [(''campaign_name'', VStr ''A''), (''spend'', VStr ''10'')]"
    by (simp add: flatten_insights_def flatten_field_def)
  with h date_stop_dropped [OF h, of no_format "[(''campaign_name'', VStr ''A'')]"
      "[(''spend'', VStr ''10'')]" None None None]
  show ?thesis by simp
qed

subsection \<open>C2\<close>

text \<open>
  C2. For every sequence of pairs \<open>(t, v)\<close> with \<open>t\<close> a string, every surrounding
  record and every choice of filters, flattening the record whose \<^verbatim>\<open>conversions\<close>
  field is the list of entries \<^verbatim>\<open>{'action_type': t, 'value': v}\<close> gives exactly the
  result of flattening the same record with that field replaced by the mapping
  \<^verbatim>\<open>{t: v, ...}\<close>; the same holds for \<^verbatim>\<open>conversion_values\<close>.
\<close>

theorem conversions_list_mapping_equivalent:
  "flatten_insights fmt (VDict (d1 @ (''conversions'', VList (map entry_of ps)) # d2))
     ats avts cts =
   flatten_insights fmt (VDict (d1 @ (''conversions'', VDict (dict_of_pairs ps)) # d2))
     ats avts cts
   \<and>
   flatten_insights fmt (VDict (d1 @ (''conversion_values'', VList (map entry_of ps)) # d2))
     ats avts cts =
   flatten_insights fmt (VDict (d1 @ (''conversion_values'', VDict (dict_of_pairs ps)) # d2))
     ats avts cts"
proof -
  have conv: "flatten_field fmt ats avts cts flat ''conversions'' (VList (map entry_of ps)) =
        flatten_field fmt ats avts cts flat ''conversions'' (VDict (dict_of_pairs ps))"
    for flat
    by (simp add: flatten_field_def flatten_entries_pairs flatten_pairs_dict_of_pairs)
  have vals: "flatten_field fmt ats avts cts flat ''conversion_values'' (VList (map entry_of ps)) =
        flatten_field fmt ats avts cts flat ''conversion_values'' (VDict (dict_of_pairs ps))"
    for flat
    by (simp add: flatten_field_def flatten_entries_pairs flatten_pairs_dict_of_pairs)
  show ?thesis
    unfolding flatten_insights_def pyval.case
    using flatten_loop_field_cong [OF conv] flatten_loop_field_cong [OF vals]
    by blast
qed

theorem conversions_list_mapping_equivalent_witness:
  "flatten_insights no_format
     (VDict [(''spend'', VStr ''10''),
             (''conversions'', VDict (dict_of_pairs
                [(''schedule_total'', VStr ''296''), (''find_location_total'', VStr ''1449''),
                 (''schedule_total'', VStr ''300'')]))])
     None None (Some [''schedule_total''])
   = Inr [(''spend'', VStr ''10''), (''conversion_schedule_total'', VStr ''300'' :: real pyval)]"
proof -
  let ?ps = "[(''schedule_total'', VStr ''296''), (''find_location_total'', VStr ''1449''),
              (''schedule_total'', VStr ''300'' :: real pyval)]"
  have "flatten_insights no_format
     (VDict ([(''spend'', VStr ''10'')] @ (''conversions'', VList (map entry_of ?ps)) # []))
     None None (Some [''schedule_total''])
   = Inr [(''spend'', VStr ''10''), (''conversion_schedule_total'', VStr ''300'')]"
    by (simp add: flatten_insights_def flatten_field_def entry_of_def dict_get_def passes_def
        py_format_def)
  with conversions_list_mapping_equivalent
    [of no_format "[(''spend'', VStr ''10'')]" ?ps "[]" None None "Some [''schedule_total'']"]
  show ?thesis by simp
qed

subsection \<open>C3\<close>

text \<open>
  C3 (as stated). For every input value, also one whose collection under
  \<^verbatim>\<open>actions\<close> holds entries that are not mappings, flattening returns normally. It
  does not: such an entry has no \<^verbatim>\<open>get\<close>, and the \<^verbatim>\<open>AttributeError\<close> leaves
  the function.
\<close>

theorem entry_not_mapping_counterexample:
  "flatten_insights no_format (VDict [(''actions'', VList [VStr ''purchase''])]) None None None
     = (Inl AttributeError :: py_error + real pydict)"
  by (simp add: flatten_insights_def flatten_field_def)

text \<open>
  C3 (amended). Flattening returns normally exactly for a record (a mapping) in which
  every list under \<^verbatim>\<open>actions\<close>, \<^verbatim>\<open>action_values\<close>, \<^verbatim>\<open>conversions\<close>,
  \<^verbatim>\<open>conversion_values\<close> or \<^verbatim>\<open>video_thruplay_watched_actions\<close> holds mappings only;
  \<^verbatim>\<open>process_insights\<close> returns normally exactly for a response (a mapping) whose
  \<^verbatim>\<open>data\<close> is absent, falsy or a list of such records; \<^verbatim>\<open>convert_numeric_fields\<close>
  returns normally for every batch of records.
\<close>

theorem core_returns_normally:
  "((\<exists>flat. flatten_insights fmt item ats avts cts = Inr flat) \<longleftrightarrow> record_ok item) \<and>
   ((\<exists>rs. process_insights fmt fnz response ats avts cts = Inr rs) \<longleftrightarrow> response_ok fnz response) \<and>
   (\<exists>rs. convert_numeric_fields parse data = Inr rs)"
  by (simp add: flatten_insights_returns process_insights_returns convert_loop_returns
      convert_numeric_fields_def)

theorem core_returns_normally_witness:
  "record_ok (VDict [(''actions'', VList [VDict [(''value'', VStr ''5'')]]), (''spend'', VStr ''10'' :: real pyval)]) \<and>
   (\<exists>flat. flatten_insights no_format
      (VDict [(''actions'', VList [VDict [(''value'', VStr ''5'')]]), (''spend'', VStr ''10'' :: real pyval)])
      None None None = Inr flat) \<and>
   response_ok (\<lambda>x. x \<noteq> 0)
      (VDict [(''data'', VList [VDict [(''actions'', VList [VDict []]), (''spend'', VStr ''10'' :: real pyval)]])]) \<and>
   (\<exists>rs. process_insights no_format (\<lambda>x. x \<noteq> 0)
      (VDict [(''data'', VList [VDict [(''actions'', VList [VDict []]), (''spend'', VStr ''10'' :: real pyval)]])])
      None None None = Inr rs)"
proof -
  have 1: "record_ok (VDict [(''actions'', VList [VDict [(''value'', VStr ''5'')]]), (''spend'', VStr ''10'' :: real pyval)])"
    by (simp add: record_ok_def field_ok_def collection_keys_def)
  have 2: "response_ok (\<lambda>x. x \<noteq> 0)
      (VDict [(''data'', VList [VDict [(''actions'', VList [VDict []]), (''spend'', VStr ''10'' :: real pyval)]])])"
    by (simp add: record_ok_def response_ok_def field_ok_def collection_keys_def dict_get_def)
  show ?thesis
    using 1 2 core_returns_normally [of no_format
      "VDict [(''actions'', VList [VDict [(''value'', VStr ''5'')]]), (''spend'', VStr ''10'' :: real pyval)]"
      None None None "\<lambda>x. x \<noteq> 0"
      "VDict [(''data'', VList [VDict [(''actions'', VList [VDict []]), (''spend'', VStr ''10'' :: real pyval)]])]"
      "\<lambda>s. None" "[]"]
    by blast
qed

subsection \<open>C4\<close>

text \<open>
  C4. A field is a candidate for coercion exactly when its key has a substring that is,
  up to the case of its letters, one of the fourteen vocabulary words. In every record of
  every batch, a candidate whose value is a string that parses as a float takes that
  float; a candidate whose string does not parse keeps it; every field that is no
  candidate, and every candidate whose value is no string, stays as it is.
\<close>

theorem convert_numeric_fields_coerces:
  assumes "list_all (\<lambda>item. distinct (map fst item)) data"
  shows "convert_numeric_fields parse data = Inr (map (map (coerce_field parse)) data) \<and>
         (matches_numeric key \<longleftrightarrow>
            (\<exists>word \<in> {''spend'', ''impressions'', ''clicks'', ''reach'', ''frequency'', ''ctr'',
                       ''cpc'', ''cpm'', ''conversions'', ''cost'', ''action_'', ''value'',
                       ''video'', ''budget''}.
               \<exists>pre mid post. key = pre @ mid @ post \<and> lower mid = word))"
proof -
  have "set numeric_patterns =
      {''spend'', ''impressions'', ''clicks'', ''reach'', ''frequency'', ''ctr'',
       ''cpc'', ''cpm'', ''conversions'', ''cost'', ''action_'', ''value'',
       ''video'', ''budget''}"
    by (simp add: numeric_patterns_def)
  then have "matches_numeric key \<longleftrightarrow>
            (\<exists>word \<in> {''spend'', ''impressions'', ''clicks'', ''reach'', ''frequency'', ''ctr'',
                       ''cpc'', ''cpm'', ''conversions'', ''cost'', ''action_'', ''value'',
                       ''video'', ''budget''}.
               \<exists>pre mid post. key = pre @ mid @ post \<and> lower mid = word)"
    using matches_numeric_iff [of key] by (simp only:)
  moreover have "convert_numeric_fields parse data = Inr (map (map (coerce_field parse)) data)"
    using assms convert_loop_map [of data parse "[]"] by (simp add: convert_numeric_fields_def)
  ultimately show ?thesis by blast
qed

theorem convert_numeric_fields_coerces_witness:
  "list_all (\<lambda>item. distinct (map fst item))
     [[(''Spend'', VStr ''100.50''), (''cpc'', VStr ''N/A''), (''clicks'', VInt 3),
       (''campaign_name'', VStr ''100.50'')]] \<and>
   convert_numeric_fields parse_example
     [[(''Spend'', VStr ''100.50''), (''cpc'', VStr ''N/A''), (''clicks'', VInt 3),
       (''campaign_name'', VStr ''100.50'')]]
   = Inr [[(''Spend'', VFloat (201 / 2)), (''cpc'', VStr ''N/A''), (''clicks'', VInt 3),
           (''campaign_name'', VStr ''100.50'')]]"
proof -
  let ?data = "[[(''Spend'', VStr ''100.50''), (''cpc'', VStr ''N/A''), (''clicks'', VInt 3),
       (''campaign_name'', VStr ''100.50'' :: real pyval)]]"
  have h: "list_all (\<lambda>item. distinct (map fst item)) ?data" by simp
  have "convert_numeric_fields parse_example ?data
          = Inr (map (map (coerce_field parse_example)) ?data)"
    using convert_numeric_fields_coerces [OF h] by blast
  with h show ?thesis
    by (simp add: coerce_field_def matches_numeric_def numeric_patterns_def lower_def
        lower_char_def parse_example_def)
qed

subsection \<open>C5\<close>

text \<open>
  C5. For every response and every choice of filters, \<^verbatim>\<open>process_insights\<close> returns
  the empty list when \<^verbatim>\<open>data\<close> is absent or the empty list; otherwise, for a list
  \<^verbatim>\<open>data\<close>, it returns the list of the results of flattening each element on its own
  with these filters, in the order of the input.
\<close>

theorem process_insights_maps_flatten:
  "(map_of r ''data'' = None \<longrightarrow>
      process_insights fmt fnz (VDict r) ats avts cts = Inr []) \<and>
   (map_of r ''data'' = Some (VList []) \<longrightarrow>
      process_insights fmt fnz (VDict r) ats avts cts = Inr []) \<and>
   (map_of r ''data'' = Some (VList items) \<and>
    list_all2 (\<lambda>item flat. flatten_insights fmt item ats avts cts = Inr flat) items flats \<longrightarrow>
      process_insights fmt fnz (VDict r) ats avts cts = Inr flats)"
proof (intro conjI impI)
  assume "map_of r ''data'' = None"
  then show "process_insights fmt fnz (VDict r) ats avts cts = Inr []"
    by (simp add: process_insights_def dict_get_def)
next
  assume "map_of r ''data'' = Some (VList [])"
  then show "process_insights fmt fnz (VDict r) ats avts cts = Inr []"
    by (simp add: process_insights_def dict_get_def)
next
  assume a: "map_of r ''data'' = Some (VList items) \<and>
    list_all2 (\<lambda>item flat. flatten_insights fmt item ats avts cts = Inr flat) items flats"
  then have len: "length items = length flats"
    by (auto dest: list_all2_lengthD)
  from a have "list_all2 (\<lambda>item flat. flatten_insights fmt item ats avts cts = Inr flat) items flats"
    by simp
  then have "process_loop fmt ats avts cts [] items = Inr ([] @ flats)"
    by (rule process_loop_all2)
  with a len show "process_insights fmt fnz (VDict r) ats avts cts = Inr flats"
    by (cases items) (simp_all add: process_insights_def dict_get_def)
qed

theorem process_insights_maps_flatten_witness:
  "process_insights no_format (\<lambda>x. x \<noteq> 0) (VDict []) None None None
     = (Inr [] :: py_error + real pydict list) \<and>
   process_insights no_format (\<lambda>x. x \<noteq> 0)
     (VDict [(''data'', VList
        [VDict [(''campaign_name'', VStr ''Campaign 1''),
                (''actions'', VList [entry_of (''purchase'', VStr ''5'')])],
         VDict [(''campaign_name'', VStr ''Campaign 2''), (''date_stop'', VStr ''2025-01-01'')]])])
     None None None
     = Inr [[(''campaign_name'', VStr ''Campaign 1''), (''action_purchase'', VStr ''5'')],
            [(''campaign_name'', VStr ''Campaign 2'' :: real pyval)]]"
proof -
  let ?a = "VDict [(''campaign_name'', VStr ''Campaign 1''),
                   (''actions'', VList [entry_of (''purchase'', VStr ''5'')])] :: real pyval"
  let ?b = "VDict [(''campaign_name'', VStr ''Campaign 2''),
                   (''date_stop'', VStr ''2025-01-01'')] :: real pyval"
  let ?flats = "[[(''campaign_name'', VStr ''Campaign 1''), (''action_purchase'', VStr ''5'')],
                 [(''campaign_name'', VStr ''Campaign 2'' :: real pyval)]]"
  have absent: "map_of ([] :: real pydict) ''data'' = None" by simp
  have present: "map_of [(''data'', VList [?a, ?b])] ''data'' = Some (VList [?a, ?b]) \<and>
      list_all2 (\<lambda>item flat. flatten_insights no_format item None None None = Inr flat)
        [?a, ?b] ?flats"
    by (simp add: flatten_insights_def flatten_field_def entry_of_def dict_get_def
        passes_def py_format_def)
  show ?thesis
    using absent present
      process_insights_maps_flatten [of "[]" no_format "\<lambda>x. x \<noteq> 0" None None None "[]" "[]"]
      process_insights_maps_flatten [of "[(''data'', VList [?a, ?b])]" no_format
        "\<lambda>x. x \<noteq> 0" None None None "[?a, ?b]" ?flats]
    by blast
qed

subsection \<open>C6\<close>

text \<open>
  C6. For an entry of a list-shaped collection under one of the five collection keys: an
  entry without \<^verbatim>\<open>action_type\<close> is flattened as the same entry with the type
  \<^verbatim>\<open>'unknown'\<close>, and an entry without \<^verbatim>\<open>value\<close> as the same entry with the value
  \<open>0\<close>, anywhere in the list and in the record; alone and unfiltered, the first gives
  the key \<^verbatim>\<open>{prefix}unknown\<close> and the second the value \<open>0\<close>; neither raises.
\<close>

theorem missing_entry_keys_default:
  assumes "key \<in> set collection_keys"
  shows
   "flatten_insights fmt (VDict (d1 @ (key, VList (es1 @ VDict a # es2)) # d2)) ats avts cts =
    flatten_insights fmt (VDict (d1 @ (key, VList (es1 @ VDict (with_defaults a) # es2)) # d2))
      ats avts cts \<and>
    (map_of a ''action_type'' = None \<longrightarrow>
       flatten_insights fmt (VDict [(key, VList [VDict a])]) None None None =
         Inr [(collection_prefix key @ ''unknown'', dict_get a ''value'' (VInt 0))]) \<and>
    (map_of a ''value'' = None \<longrightarrow>
       flatten_insights fmt (VDict [(key, VList [VDict a])]) None None None =
         Inr [(collection_prefix key @ py_format fmt (dict_get a ''action_type'' (VStr ''unknown'')),
               VInt 0)]) \<and>
    (\<exists>flat. flatten_insights fmt (VDict [(key, VList [VDict a])]) ats avts cts = Inr flat)"
proof -
  have "flatten_field fmt ats avts cts flat key (VList (es1 @ VDict a # es2)) =
        flatten_field fmt ats avts cts flat key (VList (es1 @ VDict (with_defaults a) # es2))"
    for flat
    using assms flatten_entries_with_defaults [of fmt _ _ flat es1 a es2]
    by (auto simp only: collection_keys_def flatten_field_def set_simps insert_iff empty_iff
        is_list.simps list_of_val.simps list.simps char.inject simp_thms if_True if_False)
  then have 1:
    "flatten_insights fmt (VDict (d1 @ (key, VList (es1 @ VDict a # es2)) # d2)) ats avts cts =
     flatten_insights fmt (VDict (d1 @ (key, VList (es1 @ VDict (with_defaults a) # es2)) # d2))
       ats avts cts"
    unfolding flatten_insights_def pyval.case by (rule flatten_loop_field_cong)
  have 2: "flatten_insights fmt (VDict [(key, VList [VDict a])]) None None None =
         Inr [(collection_prefix key @ ''unknown'', dict_get a ''value'' (VInt 0))]"
    if "map_of a ''action_type'' = None"
    using assms that
    by (auto simp: collection_keys_def collection_prefix_def flatten_insights_def
        flatten_field_def dict_get_def passes_def py_format_def)
  have 3: "flatten_insights fmt (VDict [(key, VList [VDict a])]) None None None =
         Inr [(collection_prefix key @ py_format fmt (dict_get a ''action_type'' (VStr ''unknown'')),
               VInt 0)]"
    if "map_of a ''value'' = None"
    using assms that
    by (auto simp: collection_keys_def collection_prefix_def flatten_insights_def
        flatten_field_def dict_get_def passes_def)
  have 4: "\<exists>flat. flatten_insights fmt (VDict [(key, VList [VDict a])]) ats avts cts = Inr flat"
    by (simp add: flatten_insights_returns record_ok_def field_ok_def)
  from 1 2 3 4 show ?thesis by blast
qed

theorem missing_entry_keys_default_witness:
  "''actions'' \<in> set collection_keys \<and>
   map_of ([] :: real pydict) ''action_type'' = None \<and>
   map_of ([] :: real pydict) ''value'' = None \<and>
   flatten_insights no_format (VDict [(''actions'', VList [VDict []])]) None None None =
     Inr [(''action_unknown'', VInt 0 :: real pyval)]"
proof -
  have k: "''actions'' \<in> set collection_keys" by (simp add: collection_keys_def)
  have m: "map_of ([] :: real pydict) ''action_type'' = None" by simp
  from m have "flatten_insights no_format (VDict [(''actions'', VList [VDict []])]) None None None =
     Inr [(collection_prefix ''actions'' @ ''unknown'', dict_get [] ''value'' (VInt 0 :: real pyval))]"
    using missing_entry_keys_default [OF k, of no_format "[]" "[]" "[]" "[]" "[]" None None None]
    by blast
  with k show ?thesis by (simp add: collection_prefix_def dict_get_def)
qed

subsection \<open>C7\<close>

text \<open>
  C7. For a \<^verbatim>\<open>conversion_values\<close> field of either shape, anywhere in a record,
  flattening writes
  \<^verbatim>\<open>conversion_value_{type}\<close> for exactly the types that pass the filter
  \<open>conversion_types\<close>, the one \<^verbatim>\<open>conversions\<close> is filtered by (all types when it is
  unset), in the order of the field; the filters \<open>action_types\<close> and
  \<open>action_value_types\<close> do not change what the field gives.
\<close>

theorem conversion_values_share_filter:
  "flatten_insights fmt (VDict (d1 @ (''conversion_values'', VDict m) # d2)) ats avts cts =
     (case flatten_insights fmt (VDict d1) ats avts cts of
        Inl e \<Rightarrow> Inl e
      | Inr flat \<Rightarrow>
          flatten_loop fmt ats avts cts
            (foldl (\<lambda>f (t, v). dict_set f (''conversion_value_'' @ t) v) flat
               (filter (\<lambda>(t, v). passes cts (VStr t :: 'f pyval)) (m :: 'f pydict))) d2) \<and>
   flatten_insights fmt (VDict (d1 @ (''conversions'', VDict m) # d2)) ats avts cts =
     (case flatten_insights fmt (VDict d1) ats avts cts of
        Inl e \<Rightarrow> Inl e
      | Inr flat \<Rightarrow>
          flatten_loop fmt ats avts cts
            (foldl (\<lambda>f (t, v). dict_set f (''conversion_'' @ t) v) flat
               (filter (\<lambda>(t, v). passes cts (VStr t :: 'f pyval)) m)) d2) \<and>
   (list_all is_dict es \<longrightarrow>
    flatten_insights fmt (VDict (d1 @ (''conversion_values'', VList es) # d2)) ats avts cts =
     (case flatten_insights fmt (VDict d1) ats avts cts of
        Inl e \<Rightarrow> Inl e
      | Inr flat \<Rightarrow>
          flatten_loop fmt ats avts cts
            (foldl (\<lambda>f (ty, v). dict_set f (''conversion_value_'' @ py_format fmt ty) v) flat
               (filter (\<lambda>(ty, v). passes cts ty) (map entry_pair es))) d2)) \<and>
   flatten_insights fmt (VDict [(''conversion_values'', x)]) ats avts cts =
     flatten_insights fmt (VDict [(''conversion_values'', x)]) ats' avts' cts"
proof -
  have "flatten_field fmt ats avts cts [] ''conversion_values'' x =
        flatten_field fmt ats' avts' cts [] ''conversion_values'' x"
    by (simp add: flatten_field_def)
  then have indep: "flatten_insights fmt (VDict [(''conversion_values'', x)]) ats avts cts =
     flatten_insights fmt (VDict [(''conversion_values'', x)]) ats' avts' cts"
    by (simp add: flatten_insights_def split: sum.splits)
  have vals: "flatten_field fmt ats avts cts flat ''conversion_values'' (VDict m) =
      Inr (foldl (\<lambda>f (t, v). dict_set f (''conversion_value_'' @ t) v) flat
                 (filter (\<lambda>(t, v). passes cts (VStr t :: 'f pyval)) m))" for flat
    by (simp add: flatten_field_def flatten_pairs_foldl_filter)
  have convs: "flatten_field fmt ats avts cts flat ''conversions'' (VDict m) =
      Inr (foldl (\<lambda>f (t, v). dict_set f (''conversion_'' @ t) v) flat
                 (filter (\<lambda>(t, v). passes cts (VStr t :: 'f pyval)) m))" for flat
    by (simp add: flatten_field_def flatten_pairs_foldl_filter)
  have lst: "flatten_field fmt ats avts cts flat ''conversion_values'' (VList es) =
      Inr (foldl (\<lambda>f (ty, v). dict_set f (''conversion_value_'' @ py_format fmt ty) v) flat
                 (filter (\<lambda>(ty, v). passes cts ty) (map entry_pair es)))"
    if "list_all is_dict es" for flat
    using that by (simp add: flatten_field_def flatten_entries_foldl_filter)
  show ?thesis
    unfolding flatten_insights_field
    using indep by (auto simp: vals convs lst split: sum.splits)
qed

theorem conversion_values_share_filter_witness:
  "list_all is_dict [entry_of (''a'', VStr ''1''), entry_of (''b'', VStr ''2'' :: real pyval)] \<and>
   flatten_insights no_format
     (VDict [(''conversion_values'',
              VList [entry_of (''a'', VStr ''1''), entry_of (''b'', VStr ''2'')]),
             (''actions'', VList [entry_of (''lead'', VStr ''12'')])])
     (Some [''lead'']) (Some []) (Some [''b''])
     = Inr [(''conversion_value_b'', VStr ''2''), (''action_lead'', VStr ''12'' :: real pyval)]"
proof -
  let ?es = "[entry_of (''a'', VStr ''1''), entry_of (''b'', VStr ''2'' :: real pyval)]"
  let ?d2 = "[(''actions'', VList [entry_of (''lead'', VStr ''12'' :: real pyval)])]"
  have h: "list_all is_dict ?es" by (simp add: entry_of_def)
  have "flatten_insights no_format (VDict ([] @ (''conversion_values'', VList ?es) # ?d2))
          (Some [''lead'']) (Some []) (Some [''b'']) =
        (case flatten_insights no_format (VDict []) (Some [''lead'']) (Some []) (Some [''b'']) of
           Inl e \<Rightarrow> Inl e
         | Inr flat \<Rightarrow>
             flatten_loop no_format (Some [''lead'']) (Some []) (Some [''b''])
               (foldl (\<lambda>f (ty, v). dict_set f (''conversion_value_'' @ py_format no_format ty) v)
                  flat (filter (\<lambda>(ty, v). passes (Some [''b'']) ty) (map entry_pair ?es)))
               ?d2)"
    using h conversion_values_share_filter
      [where fmt = no_format and ?d1.0 = "[]" and es = ?es and cts = "Some [''b'']"
         and ats = "Some [''lead'']" and avts = "Some []" and ?d2.0 = ?d2]
    by blast
  with h show ?thesis
    by (simp add: flatten_insights_def flatten_field_def entry_pair_def entry_of_def
        dict_get_def passes_def py_format_def)
qed

subsection \<open>C8\<close>

text \<open>
  C8. For every batch, \<^verbatim>\<open>convert_numeric_fields\<close> returns as many records as it was
  given, and every record of the result has the keys of its input record, in the same
  order: no field is added or removed.
\<close>

theorem convert_numeric_fields_keeps_shape:
  assumes "list_all (\<lambda>item. distinct (map fst item)) data"
  shows "\<exists>result. convert_numeric_fields parse data = Inr result \<and>
           length result = length data \<and>
           map (map fst) result = map (map fst) data"
proof -
  have "convert_numeric_fields parse data = Inr (map (map (coerce_field parse)) data)"
    using assms convert_loop_map [of data parse "[]"] by (simp add: convert_numeric_fields_def)
  moreover have "map (map fst) (map (map (coerce_field parse)) data) = map (map fst) data"
    by (simp add: coerce_field_def comp_def)
  ultimately show ?thesis by simp
qed

theorem convert_numeric_fields_keeps_shape_witness:
  "list_all (\<lambda>item. distinct (map fst item))
     [[(''spend'', VStr ''100.50''), (''campaign_name'', VStr ''A'')], [], [(''cpc'', VStr ''N/A'')]] \<and>
   (\<exists>result. convert_numeric_fields parse_example
       [[(''spend'', VStr ''100.50''), (''campaign_name'', VStr ''A'')], [], [(''cpc'', VStr ''N/A'')]]
         = Inr result \<and>
      length result = Suc (Suc (Suc 0)) \<and>
      map (map fst) result = [[''spend'', ''campaign_name''], [], [''cpc'']])"
proof -
  let ?data = "[[(''spend'', VStr ''100.50''), (''campaign_name'', VStr ''A'')], [],
                [(''cpc'', VStr ''N/A'' :: real pyval)]]"
  have h: "list_all (\<lambda>item. distinct (map fst item)) ?data" by simp
  show ?thesis
    using h convert_numeric_fields_keeps_shape [OF h, of parse_example] by simp
qed

subsection \<open>C9\<close>

text \<open>
  C9. For every record all of whose values are scalars (neither lists nor mappings) and
  every choice of filters, flattening returns the record unchanged except that the key
  \<^verbatim>\<open>date_stop\<close> is removed; flattening the result again returns it unchanged.
\<close>

theorem scalar_record_unchanged:
  assumes "distinct (map fst d)" and "list_all (\<lambda>kv. is_scalar (snd kv)) d"
  shows "flatten_insights fmt (VDict d) ats avts cts
           = Inr (filter (\<lambda>kv. fst kv \<noteq> ''date_stop'') d) \<and>
         flatten_insights fmt (VDict (filter (\<lambda>kv. fst kv \<noteq> ''date_stop'') d)) ats avts cts
           = Inr (filter (\<lambda>kv. fst kv \<noteq> ''date_stop'') d)"
proof -
  let ?d' = "filter (\<lambda>kv. fst kv \<noteq> ''date_stop'') d"
  have 1: "flatten_loop fmt ats avts cts [] d = Inr ([] @ ?d')"
    using assms by (intro flatten_loop_scalars) simp_all
  have "distinct (map fst ?d')" using assms(1) by (simp add: distinct_map_filter)
  moreover have "list_all (\<lambda>kv. is_scalar (snd kv)) ?d'"
    using assms(2) by (simp add: list_all_iff)
  ultimately have "flatten_loop fmt ats avts cts [] ?d' =
      Inr ([] @ filter (\<lambda>kv. fst kv \<noteq> ''date_stop'') ?d')"
    by (intro flatten_loop_scalars) simp_all
  with 1 show ?thesis by (simp add: flatten_insights_def)
qed

theorem scalar_record_unchanged_witness:
  "distinct (map fst [(''campaign_name'', VStr ''My Campaign''),
      (''date_stop'', VStr ''2025-01-01''), (''impressions'', VInt 7 :: real pyval)]) \<and>
   list_all (\<lambda>kv. is_scalar (snd kv)) [(''campaign_name'', VStr ''My Campaign''),
      (''date_stop'', VStr ''2025-01-01''), (''impressions'', VInt 7 :: real pyval)] \<and>
   flatten_insights no_format (VDict [(''campaign_name'', VStr ''My Campaign''),
      (''date_stop'', VStr ''2025-01-01''), (''impressions'', VInt 7 :: real pyval)])
      (Some [''lead'']) None None
     = Inr [(''campaign_name'', VStr ''My Campaign''), (''impressions'', VInt 7)] \<and>
   flatten_insights no_format
      (VDict [(''campaign_name'', VStr ''My Campaign''), (''impressions'', VInt 7 :: real pyval)])
      (Some [''lead'']) None None
     = Inr [(''campaign_name'', VStr ''My Campaign''), (''impressions'', VInt 7)]"
proof -
  let ?d = "[(''campaign_name'', VStr ''My Campaign''),
      (''date_stop'', VStr ''2025-01-01''), (''impressions'', VInt 7 :: real pyval)]"
  have 1: "distinct (map fst ?d)" by simp
  have 2: "list_all (\<lambda>kv. is_scalar (snd kv)) ?d" by (simp add: is_scalar_def)
  show ?thesis
    using 1 2 scalar_record_unchanged [OF 1 2, of no_format "Some [''lead'']" None None]
    by simp
qed

subsection \<open>C10\<close>

text \<open>
  C10. For every record in which \<^verbatim>\<open>actions\<close>, \<^verbatim>\<open>action_values\<close> or
  \<^verbatim>\<open>video_thruplay_watched_actions\<close> holds a mapping instead of a list, flattening
  applies the rule for nested objects: it writes \<^verbatim>\<open>{key}_{subkey}\<close> with the subvalue
  for every subkey, and neither keeps the field under its own key nor drops it.
\<close>

theorem mapping_under_list_key_nested:
  assumes "key \<in> {''actions'', ''action_values'', ''video_thruplay_watched_actions''}"
  shows "flatten_insights fmt (VDict (d1 @ (key, VDict m) # d2)) ats avts cts =
           (case flatten_insights fmt (VDict d1) ats avts cts of
              Inl e \<Rightarrow> Inl e
            | Inr flat \<Rightarrow>
                flatten_loop fmt ats avts cts
                  (foldl (\<lambda>f (sk, sv). dict_set f (key @ ''_'' @ sk) sv) flat m) d2) \<and>
         (distinct (map fst m) \<longrightarrow>
            flatten_insights fmt (VDict [(key, VDict m)]) ats avts cts =
              Inr (map (\<lambda>(sk, sv). (key @ ''_'' @ sk, sv)) m))"
proof -
  have field: "flatten_field fmt ats avts cts flat key (VDict m) = Inr (flatten_nested key flat m)"
    for flat
    using assms by (auto simp: flatten_field_def)
  have "flatten_insights fmt (VDict [(key, VDict m)]) ats avts cts =
        Inr (map (\<lambda>(sk, sv). (key @ ''_'' @ sk, sv)) m)" if "distinct (map fst m)"
    using that flatten_nested_fresh [of m "[]" key]
    by (simp add: flatten_insights_def field)
  then show ?thesis
    by (simp add: flatten_insights_field field flatten_nested_foldl split: sum.splits)
qed

theorem mapping_under_list_key_nested_witness:
  "''actions'' \<in> {''actions'', ''action_values'', ''video_thruplay_watched_actions''} \<and>
   distinct (map fst [(''purchase'', VStr ''5'' :: real pyval)]) \<and>
   flatten_insights no_format (VDict [(''actions'', VDict [(''purchase'', VStr ''5'')])])
     None None None = Inr [(''actions_purchase'', VStr ''5'' :: real pyval)]"
proof -
  have k: "''actions'' \<in> {''actions'', ''action_values'', ''video_thruplay_watched_actions''}"
    by simp
  have d: "distinct (map fst [(''purchase'', VStr ''5'' :: real pyval)])" by simp
  have "flatten_insights no_format (VDict [(''actions'', VDict [(''purchase'', VStr ''5'')])])
          None None None
        = Inr (map (\<lambda>(sk, sv). (''actions'' @ ''_'' @ sk, sv)) [(''purchase'', VStr ''5'' :: real pyval)])"
    using d mapping_under_list_key_nested [OF k, of no_format "[]" "[(''purchase'', VStr ''5'')]" "[]" None None None]
    by blast
  with k d show ?thesis by simp
qed

end
